theory Spec2Isabelle
  imports Main "HOL-Library.Word" "HOL-Library.AList"
begin

section \<open>GoCache: an expiring key/value store\<close>

text \<open>
  The Go sources are \<^verbatim>\<open>main.go\<close> (the current revision, whose \<^verbatim>\<open>Set\<close> takes a
  capacity and a lifetime) and an earlier revision of the same file (whose \<^verbatim>\<open>Set\<close>
  takes a key and a value only). The cache operations are embedded as functions on an
  explicit cache state. One goroutine executes a call at a time, so a call that waits
  for a mutex nobody else can release never returns: that outcome is a value of the
  model.

  Time is what \<^verbatim>\<open>time.Now().UnixNano()\<close> returns, an \<^verbatim>\<open>int64\<close>: a \<open>64 word\<close> compared
  as a signed number. Every call that reads the clock takes its reading as an argument.
  \<^verbatim>\<open>time.Now().Add(d).UnixNano()\<close> is the reading plus \<open>d\<close> in \<^verbatim>\<open>int64\<close> arithmetic:
  \<^verbatim>\<open>UnixNano\<close> computes \<^verbatim>\<open>sec * 1e9 + nsec\<close> on \<^verbatim>\<open>int64\<close>, which wraps around where the
  instant does not fit (Go's documentation leaves that result undefined). The
  properties below that depend on the sum say what it is as an integer where it fits.
\<close>

subsection \<open>Data\<close>

type_synonym int64 = "64 word"
type_synonym int32 = "32 word"

text \<open>\<^verbatim>\<open>type item struct { val string; expiry int64 }\<close>\<close>

record item =
  val :: string
  expiry :: int64

text \<open>
  The state of a \<^verbatim>\<open>sync.RWMutex\<close>, as the documentation of Go's \<^verbatim>\<open>sync\<close> package
  describes it: held by one writer, or by any number of readers, or free.
\<close>

record RWMutex =
  writer :: bool
  readers :: nat

text \<open>
  \<^verbatim>\<open>type Cache struct { mu *sync.RWMutex; items map[string]*item;
  defaultExpiry time.Duration; readOnly int32 }\<close>.
  The Go map is an association list: its order is the order in which \<^verbatim>\<open>range\<close>
  happens to visit the entries, and its keys are unique (\<open>distinct (map fst (items c))\<close>).
  Every item is allocated by \<^verbatim>\<open>Set\<close> and never written again, so the pointer is
  modelled by the item itself.
\<close>

record Cache =
  mu :: RWMutex
  items :: "(string \<times> item) list"
  defaultExpiry :: int64
  readOnly :: int32

text \<open>
  How a call can fail to return: it waits forever for the mutex, or the runtime aborts
  the program (\<^verbatim>\<open>fatal error: sync: Unlock of unlocked RWMutex\<close>).
\<close>

datatype fault = BlocksForever | UnlockOfUnlocked

subsection \<open>The mutex\<close>

definition unlocked :: RWMutex where
  "unlocked = \<lparr>writer = False, readers = 0\<rparr>"

definition Lock :: "RWMutex \<Rightarrow> fault + RWMutex" where
  "Lock m = (if writer m \<or> 0 < readers m then Inl BlocksForever
             else Inr (m\<lparr>writer := True\<rparr>))"

definition Unlock :: "RWMutex \<Rightarrow> fault + RWMutex" where
  "Unlock m = (if writer m then Inr (m\<lparr>writer := False\<rparr>) else Inl UnlockOfUnlocked)"

definition RLock :: "RWMutex \<Rightarrow> fault + RWMutex" where
  "RLock m = (if writer m then Inl BlocksForever
              else Inr (m\<lparr>readers := Suc (readers m)\<rparr>))"

definition RUnlock :: "RWMutex \<Rightarrow> fault + RWMutex" where
  "RUnlock m = (if 0 < readers m then Inr (m\<lparr>readers := readers m - 1\<rparr>)
                else Inl UnlockOfUnlocked)"

text \<open>\<^verbatim>\<open>c.mu.Lock()\<close> and its siblings: a mutex operation on the cache's mutex.\<close>

definition on_mu :: "(RWMutex \<Rightarrow> fault + RWMutex) \<Rightarrow> Cache \<Rightarrow> fault + Cache" where
  "on_mu f c = (case f (mu c) of Inl e \<Rightarrow> Inl e | Inr m \<Rightarrow> Inr (c\<lparr>mu := m\<rparr>))"

subsection \<open>Construction\<close>

definition NewCache :: "int64 \<Rightarrow> Cache" where
  "NewCache ed = \<lparr>mu = unlocked, items = [], defaultExpiry = ed, readOnly = 0\<rparr>"

subsection \<open>Sweep\<close>

text \<open>
  The scan loop of \<^verbatim>\<open>cleanup\<close>:
  \<^verbatim>\<open>for k, item := range c.items { if time.Now().UnixNano() > item.expiry { keys = append(keys, k) } }\<close>.
  The clock is read once per entry; \<open>clk k\<close> is the reading taken when the entry
  of key \<open>k\<close> is visited.
\<close>

fun scan :: "(string \<Rightarrow> int64) \<Rightarrow> (string \<times> item) list \<Rightarrow> string list" where
  "scan clk [] = []"
| "scan clk ((k, it) # xs) =
     (if expiry it <s clk k then k # scan clk xs else scan clk xs)"

text \<open>The delete loop: \<^verbatim>\<open>for _, k := range keys { delete(c.items, k) }\<close>.\<close>

fun delete_keys :: "string list \<Rightarrow> (string \<times> item) list \<Rightarrow> (string \<times> item) list" where
  "delete_keys [] xs = xs"
| "delete_keys (k # ks) xs = delete_keys ks (AList.delete k xs)"

text \<open>The first phase of \<^verbatim>\<open>cleanup\<close>, under the shared lock.\<close>

definition cleanup_scan :: "(string \<Rightarrow> int64) \<Rightarrow> Cache \<Rightarrow> fault + (string list \<times> Cache)" where
  "cleanup_scan clk c =
     (case on_mu RLock c of Inl e \<Rightarrow> Inl e
      | Inr c1 \<Rightarrow>
          (case on_mu RUnlock c1 of Inl e \<Rightarrow> Inl e
           | Inr c2 \<Rightarrow> Inr (scan clk (items c1), c2)))"

text \<open>The second phase, under the exclusive lock (released by the deferred \<^verbatim>\<open>Unlock\<close>).\<close>

definition cleanup_delete :: "string list \<Rightarrow> Cache \<Rightarrow> fault + Cache" where
  "cleanup_delete keys c =
     (case on_mu Lock c of Inl e \<Rightarrow> Inl e
      | Inr c1 \<Rightarrow> on_mu Unlock (c1\<lparr>items := delete_keys keys (items c1)\<rparr>))"

definition cleanup :: "(string \<Rightarrow> int64) \<Rightarrow> Cache \<Rightarrow> fault + Cache" where
  "cleanup clk c =
     (case cleanup_scan clk c of Inl e \<Rightarrow> Inl e
      | Inr (keys, c1) \<Rightarrow> cleanup_delete keys c1)"

subsection \<open>The operations of the cache\<close>

text \<open>
  \<^verbatim>\<open>Set(k, v string, maxItems int, expiry time.Duration)\<close>. The lifetime is \<open>d\<close>,
  \<open>clk\<close> is the clock of the sweep and \<open>now\<close> the reading taken for the new item.
  \<^verbatim>\<open>cleanup\<close> is called while the exclusive lock is held.
\<close>

definition Set :: "string \<Rightarrow> string \<Rightarrow> int \<Rightarrow> int64 \<Rightarrow> (string \<Rightarrow> int64) \<Rightarrow> int64 \<Rightarrow> Cache
    \<Rightarrow> fault + Cache" where
  "Set k v maxItems d clk now c =
     (if readOnly c = 1 then Inr c
      else
        (case on_mu Lock c of Inl e \<Rightarrow> Inl e
         | Inr c1 \<Rightarrow>
             (case (if maxItems \<le> int (length (items c1)) then cleanup clk c1 else Inr c1) of
                Inl e \<Rightarrow> Inl e
              | Inr c2 \<Rightarrow>
                  on_mu Unlock
                    (c2\<lparr>items := AList.update k \<lparr>val = v, expiry = now + d\<rparr> (items c2)\<rparr>))))"

text \<open>
  \<^verbatim>\<open>Set(k, v string)\<close> of the earlier revision: no capacity, no sweep, and the lifetime
  is \<^verbatim>\<open>c.defaultExpiry\<close>.
\<close>

definition Set_default :: "string \<Rightarrow> string \<Rightarrow> int64 \<Rightarrow> Cache \<Rightarrow> fault + Cache" where
  "Set_default k v now c =
     (if readOnly c = 1 then Inr c
      else
        (case on_mu Lock c of Inl e \<Rightarrow> Inl e
         | Inr c1 \<Rightarrow>
             on_mu Unlock
               (c1\<lparr>items := AList.update k \<lparr>val = v, expiry = now + defaultExpiry c1\<rparr>
                              (items c1)\<rparr>)))"

text \<open>\<^verbatim>\<open>delete(k string)\<close>: the unexported method, under the exclusive lock.\<close>

definition delete :: "string \<Rightarrow> Cache \<Rightarrow> fault + Cache" where
  "delete k c =
     (case on_mu Lock c of Inl e \<Rightarrow> Inl e
      | Inr c1 \<Rightarrow> on_mu Unlock (c1\<lparr>items := AList.delete k (items c1)\<rparr>))"

text \<open>\<^verbatim>\<open>Get(k string) (string, bool)\<close>; \<open>now\<close> is the clock reading it takes.\<close>

definition Get :: "string \<Rightarrow> int64 \<Rightarrow> Cache \<Rightarrow> fault + ((string \<times> bool) \<times> Cache)" where
  "Get k now c =
     (case on_mu RLock c of Inl e \<Rightarrow> Inl e
      | Inr c1 \<Rightarrow>
          (case on_mu RUnlock c1 of Inl e \<Rightarrow> Inl e
           | Inr c2 \<Rightarrow>
               (case map_of (items c1) k of
                  None \<Rightarrow> Inr (('''', False), c2)
                | Some v \<Rightarrow>
                    if expiry v <s now then Inr (('''', False), c2)
                    else Inr ((val v, True), c2))))"

text \<open>\<^verbatim>\<open>GetOrDelete(k string) (string, bool)\<close>: each branch releases the shared lock itself.\<close>

definition GetOrDelete :: "string \<Rightarrow> int64 \<Rightarrow> Cache \<Rightarrow> fault + ((string \<times> bool) \<times> Cache)" where
  "GetOrDelete k now c =
     (case on_mu RLock c of Inl e \<Rightarrow> Inl e
      | Inr c1 \<Rightarrow>
          (case map_of (items c1) k of
             None \<Rightarrow>
               (case on_mu RUnlock c1 of Inl e \<Rightarrow> Inl e
                | Inr c2 \<Rightarrow> Inr (('''', False), c2))
           | Some v \<Rightarrow>
               if expiry v <s now then
                 (case on_mu RUnlock c1 of Inl e \<Rightarrow> Inl e
                  | Inr c2 \<Rightarrow>
                      (case delete k c2 of Inl e \<Rightarrow> Inl e
                       | Inr c3 \<Rightarrow> Inr (('''', False), c3)))
               else
                 (case on_mu RUnlock c1 of Inl e \<Rightarrow> Inl e
                  | Inr c2 \<Rightarrow> Inr ((val v, True), c2))))"

text \<open>\<^verbatim>\<open>SaveAndExit(k string)\<close>: \<^verbatim>\<open>atomic.AddInt32(&c.readOnly, 1)\<close>.\<close>

definition SaveAndExit :: "string \<Rightarrow> Cache \<Rightarrow> Cache" where
  "SaveAndExit k c = c\<lparr>readOnly := readOnly c + 1\<rparr>"

subsection \<open>The janitor\<close>

text \<open>
  \<^verbatim>\<open>for { <-time.After(c.defaultExpiry * 2); c.cleanup() }\<close>. The loop has no exit, so
  the model runs a given number of iterations and records what each one does:
  the duration it waits for and the sweep. \<open>clks i\<close> is the clock of the sweep of
  iteration \<open>i\<close>. The result is the trace and either the fault that stopped the goroutine
  or the cache on which the next iteration starts.
\<close>

datatype event = After int64 | Cleanup

fun janitor :: "nat \<Rightarrow> (nat \<Rightarrow> string \<Rightarrow> int64) \<Rightarrow> Cache \<Rightarrow> event list \<times> (fault + Cache)" where
  "janitor 0 clks c = ([], Inr c)"
| "janitor (Suc n) clks c =
     (case cleanup (clks 0) c of
        Inl e \<Rightarrow> ([After (defaultExpiry c * 2), Cleanup], Inl e)
      | Inr c1 \<Rightarrow>
          (case janitor n (\<lambda>i. clks (Suc i)) c1 of
             (tr, r) \<Rightarrow> (After (defaultExpiry c * 2) # Cleanup # tr, r)))"

text \<open>A clock that does not advance.\<close>

definition fixed_clock :: "int64 \<Rightarrow> string \<Rightarrow> int64" where
  "fixed_clock t k = t"

text \<open>
  A clock that reads \<open>t0\<close> when the entry of key \<open>k0\<close> is visited and \<open>t1\<close> at every
  other entry.
\<close>

definition stepped_clock :: "string \<Rightarrow> int64 \<Rightarrow> int64 \<Rightarrow> string \<Rightarrow> int64" where
  "stepped_clock k0 t0 t1 k = (if k = k0 then t0 else t1)"

text \<open>The clocks of a janitor whose every sweep sees the same reading.\<close>

definition fixed_clocks :: "int64 \<Rightarrow> nat \<Rightarrow> string \<Rightarrow> int64" where
  "fixed_clocks t i = fixed_clock t"

section \<open>Auxiliary facts\<close>

subsection \<open>What the operations do when the mutex is free, and when it is not\<close>

lemma on_mu_Lock:
  "on_mu Lock c =
     (if mu c = unlocked then Inr (c\<lparr>mu := \<lparr>writer = True, readers = 0\<rparr>\<rparr>)
      else Inl BlocksForever)"
  by (cases "mu c") (auto simp: on_mu_def Lock_def unlocked_def)

lemma cleanup_scan_unlocked:
  "mu c = unlocked \<Longrightarrow> cleanup_scan clk c = Inr (scan clk (items c), c)"
  by (simp add: cleanup_scan_def on_mu_def RLock_def RUnlock_def unlocked_def)

lemma cleanup_delete_unlocked:
  "mu c = unlocked \<Longrightarrow>
   cleanup_delete keys c = Inr (c\<lparr>items := delete_keys keys (items c)\<rparr>)"
  by (simp add: cleanup_delete_def on_mu_def Lock_def Unlock_def unlocked_def)

lemma cleanup_unlocked:
  "mu c = unlocked \<Longrightarrow>
   cleanup clk c = Inr (c\<lparr>items := delete_keys (scan clk (items c)) (items c)\<rparr>)"
  by (simp add: cleanup_def cleanup_scan_unlocked cleanup_delete_unlocked)

lemma cleanup_write_locked:
  "writer (mu c) \<Longrightarrow> cleanup clk c = Inl BlocksForever"
  by (simp add: cleanup_def cleanup_scan_def on_mu_def RLock_def)

lemma map_of_delete_keys:
  "map_of (delete_keys ks xs) k = (if k \<in> set ks then None else map_of xs k)"
  by (induction ks arbitrary: xs) (auto simp: AList.delete_conv')

lemma scan_subset: "set (scan clk xs) \<subseteq> fst ` set xs"
  by (induction clk xs rule: scan.induct) auto

lemma set_scan:
  "distinct (map fst xs) \<Longrightarrow>
   k \<in> set (scan clk xs) \<longleftrightarrow> (\<exists>it. map_of xs k = Some it \<and> expiry it <s clk k)"
proof (induction clk xs rule: scan.induct)
  case (1 clk)
  then show ?case by simp
next
  case (2 clk k' it xs)
  have notin: "k' \<notin> set (scan clk xs)"
    using 2(3) scan_subset [of clk xs] by auto
  from 2 show ?case using notin by auto
qed

lemma Set_at_capacity:
  "readOnly c \<noteq> 1 \<Longrightarrow> maxItems \<le> int (length (items c)) \<Longrightarrow>
   Set k v maxItems d clk now c = Inl BlocksForever"
  by (simp add: Set_def on_mu_Lock cleanup_write_locked)

lemma Set_below_capacity:
  "readOnly c \<noteq> 1 \<Longrightarrow> int (length (items c)) < maxItems \<Longrightarrow>
   Set k v maxItems d clk now c =
     (if mu c = unlocked
      then Inr (c\<lparr>items := AList.update k \<lparr>val = v, expiry = now + d\<rparr> (items c)\<rparr>)
      else Inl BlocksForever)"
  by (simp add: Set_def on_mu_Lock) (simp add: on_mu_def Unlock_def unlocked_def)

lemma Set_Inr_iff:
  "readOnly c \<noteq> 1 \<Longrightarrow>
   Set k v maxItems d clk now c = Inr c1 \<longleftrightarrow>
     mu c = unlocked \<and> int (length (items c)) < maxItems \<and>
     c1 = c\<lparr>items := AList.update k \<lparr>val = v, expiry = now + d\<rparr> (items c)\<rparr>"
proof (cases "maxItems \<le> int (length (items c))")
  case True
  assume "readOnly c \<noteq> 1"
  with True show ?thesis by (simp add: Set_at_capacity)
next
  case False
  assume "readOnly c \<noteq> 1"
  with False show ?thesis by (auto simp: Set_below_capacity)
qed

lemma Get_unlocked:
  "mu c = unlocked \<Longrightarrow>
   Get k now c =
     Inr ((case map_of (items c) k of None \<Rightarrow> ('''', False)
           | Some it \<Rightarrow> if expiry it <s now then ('''', False) else (val it, True)), c)"
  by (simp add: Get_def on_mu_def RLock_def RUnlock_def unlocked_def split: option.split)

subsection \<open>What every operation preserves\<close>

text \<open>
  The keys of the association list stay unique, as those of a Go map are, and only
  \<^verbatim>\<open>SaveAndExit\<close> writes \<^verbatim>\<open>readOnly\<close>.
\<close>

lemma distinct_delete_keys:
  "distinct (map fst xs) \<Longrightarrow> distinct (map fst (delete_keys ks xs))"
  by (induction ks arbitrary: xs) (simp_all add: AList.distinct_delete)

lemma NewCache_distinct: "distinct (map fst (items (NewCache ed)))"
  by (simp add: NewCache_def)

lemma cleanup_distinct:
  "cleanup clk c = Inr c' \<Longrightarrow> distinct (map fst (items c)) \<Longrightarrow> distinct (map fst (items c'))"
  by (auto simp: cleanup_def cleanup_scan_def cleanup_delete_def on_mu_def distinct_delete_keys
      split: sum.splits prod.splits)

lemma Set_distinct:
  "Set k v maxItems d clk now c = Inr c' \<Longrightarrow> distinct (map fst (items c)) \<Longrightarrow>
   distinct (map fst (items c'))"
proof (cases "readOnly c = 1")
  case True
  assume "Set k v maxItems d clk now c = Inr c'" and "distinct (map fst (items c))"
  with True show ?thesis by (simp add: Set_def)
next
  case False
  assume "Set k v maxItems d clk now c = Inr c'" and "distinct (map fst (items c))"
  with False show ?thesis by (simp add: Set_Inr_iff AList.distinct_update)
qed

lemma Set_default_distinct:
  "Set_default k v now c = Inr c' \<Longrightarrow> distinct (map fst (items c)) \<Longrightarrow>
   distinct (map fst (items c'))"
  by (auto simp: Set_default_def on_mu_def AList.distinct_update split: sum.splits if_splits)

lemma delete_distinct:
  "delete k c = Inr c' \<Longrightarrow> distinct (map fst (items c)) \<Longrightarrow> distinct (map fst (items c'))"
  by (auto simp: delete_def on_mu_def AList.distinct_delete split: sum.splits)

lemma GetOrDelete_distinct:
  "GetOrDelete k now c = Inr (r, c') \<Longrightarrow> distinct (map fst (items c)) \<Longrightarrow>
   distinct (map fst (items c'))"
  by (auto simp: GetOrDelete_def on_mu_def dest!: delete_distinct
      split: sum.splits option.splits if_splits)

lemma Get_distinct:
  "Get k now c = Inr (r, c') \<Longrightarrow> distinct (map fst (items c)) \<Longrightarrow>
   distinct (map fst (items c'))"
  by (auto simp: Get_def on_mu_def split: sum.splits option.splits if_splits)

lemma cleanup_readOnly: "cleanup clk c = Inr c' \<Longrightarrow> readOnly c' = readOnly c"
  by (auto simp: cleanup_def cleanup_scan_def cleanup_delete_def on_mu_def
      split: sum.splits prod.splits)

lemma Set_readOnly: "Set k v maxItems d clk now c = Inr c' \<Longrightarrow> readOnly c' = readOnly c"
proof (cases "readOnly c = 1")
  case True
  assume "Set k v maxItems d clk now c = Inr c'"
  with True show ?thesis by (simp add: Set_def)
next
  case False
  assume "Set k v maxItems d clk now c = Inr c'"
  with False show ?thesis by (simp add: Set_Inr_iff)
qed

lemma delete_readOnly: "delete k c = Inr c' \<Longrightarrow> readOnly c' = readOnly c"
  by (auto simp: delete_def on_mu_def split: sum.splits)

lemma GetOrDelete_readOnly: "GetOrDelete k now c = Inr (r, c') \<Longrightarrow> readOnly c' = readOnly c"
  by (auto simp: GetOrDelete_def on_mu_def dest!: delete_readOnly
      split: sum.splits option.splits if_splits)

lemma Get_readOnly: "Get k now c = Inr (r, c') \<Longrightarrow> readOnly c' = readOnly c"
  by (auto simp: Get_def on_mu_def split: sum.splits option.splits if_splits)

subsection \<open>Arithmetic on \<^verbatim>\<open>int64\<close> where nothing overflows\<close>

lemma sint_add_fits:
  fixes a b :: int64
  shows "- (2 ^ 63) \<le> sint a + sint b \<Longrightarrow> sint a + sint b < 2 ^ 63 \<Longrightarrow>
    sint (a + b) = sint a + sint b"
  by (simp add: sint_word_ariths signed_take_bit_int_eq_self)

lemma sint_double_fits:
  fixes a :: int64
  shows "- (2 ^ 62) \<le> sint a \<Longrightarrow> sint a < 2 ^ 62 \<Longrightarrow> sint (a * 2) = 2 * sint a"
  by (simp add: sint_word_ariths signed_take_bit_int_eq_self)

section \<open>Properties\<close>

subsection \<open>Freezing\<close>

text \<open>
  C1. The claim: after any number \<open>n \<ge> 1\<close> of \<^verbatim>\<open>SaveAndExit\<close> calls, no \<^verbatim>\<open>Set\<close>
  changes the cache. The code counts the calls in \<^verbatim>\<open>readOnly\<close> and \<^verbatim>\<open>Set\<close> tests
  \<^verbatim>\<open>readOnly == 1\<close>: after two calls on a new cache the counter is 2 and \<^verbatim>\<open>Set\<close>
  stores the item.
\<close>

theorem Set_after_two_SaveAndExit:
  "Set ''a'' ''1'' 10 50 (fixed_clock 0) 0 (SaveAndExit [] (SaveAndExit [] (NewCache 20))) =
     Inr \<lparr>mu = unlocked, items = [(''a'', \<lparr>val = ''1'', expiry = 50\<rparr>)],
          defaultExpiry = 20, readOnly = 2\<rparr>"
  by (simp add: Set_def SaveAndExit_def NewCache_def on_mu_def Lock_def Unlock_def unlocked_def)

text \<open>
  C10. \<^verbatim>\<open>SaveAndExit\<close> never reads its string argument: called with any two arguments
  on the same cache, it produces the same cache.
\<close>

theorem SaveAndExit_ignores_argument:
  "SaveAndExit k1 c = SaveAndExit k2 c"
  by (simp add: SaveAndExit_def)

subsection \<open>Lifetime of an entry\<close>

text \<open>
  C2, as stated, fails at the expiry instant itself. \<^verbatim>\<open>Set\<close> at time 0 with a lifetime
  of 50 stores \<open>expiry = 50\<close>, and \<^verbatim>\<open>Get\<close> at time 50 (at, not before, \<open>now0 + t\<close>)
  still returns the value with \<open>found = true\<close>: the test is
  \<^verbatim>\<open>time.Now().UnixNano() > v.expiry\<close>.
\<close>

theorem Get_at_expiry_counterexample:
  "Set ''a'' ''1'' 100 50 (fixed_clock 0) 0 (NewCache 20) =
     Inr \<lparr>mu = unlocked, items = [(''a'', \<lparr>val = ''1'', expiry = 50\<rparr>)],
          defaultExpiry = 20, readOnly = 0\<rparr> \<and>
   Get ''a'' 50 \<lparr>mu = unlocked, items = [(''a'', \<lparr>val = ''1'', expiry = 50\<rparr>)],
                 defaultExpiry = 20, readOnly = 0\<rparr> =
     Inr ((''1'', True), \<lparr>mu = unlocked, items = [(''a'', \<lparr>val = ''1'', expiry = 50\<rparr>)],
                          defaultExpiry = 20, readOnly = 0\<rparr>)"
  by (simp add: Set_def Get_def NewCache_def on_mu_def Lock_def Unlock_def RLock_def RUnlock_def
      unlocked_def)

text \<open>
  C2, amended. Let \<^verbatim>\<open>Set\<close> on an unfrozen cache return, having stored \<open>k\<close> at time
  \<open>now0\<close> with lifetime \<open>d\<close>, and let \<open>c2\<close> be any later state, with its mutex free, in
  which the entry of \<open>k\<close> is still the one \<^verbatim>\<open>Set\<close> stored (whatever a sweep did to other
  keys). Then \<^verbatim>\<open>Get\<close> at time \<open>now\<close> returns the value and \<open>found = true\<close> when \<open>now\<close> is
  at or before \<open>now0 + d\<close>, and the empty string and \<open>found = false\<close> when \<open>now\<close> is
  strictly after it; \<^verbatim>\<open>Get\<close> does not change the cache. The sum is the \<^verbatim>\<open>int64\<close> that
  \<^verbatim>\<open>Set\<close> stored; where \<open>now0 + d\<close> fits in an \<^verbatim>\<open>int64\<close> the comparison is the one
  of the integers.
\<close>

theorem Get_after_Set:
  assumes "Set k v maxItems d clk now0 c = Inr c1" and "readOnly c \<noteq> 1"
    and "mu c2 = unlocked" and "map_of (items c2) k = map_of (items c1) k"
  shows "Get k now c2 = Inr ((if now \<le>s now0 + d then (v, True) else ('''', False)), c2) \<and>
    (- (2 ^ 63) \<le> sint now0 + sint d \<and> sint now0 + sint d < 2 ^ 63 \<longrightarrow>
       (now \<le>s now0 + d) = (sint now \<le> sint now0 + sint d))"
proof -
  from assms(1,2) have "map_of (items c1) k = Some \<lparr>val = v, expiry = now0 + d\<rparr>"
    by (simp add: Set_Inr_iff AList.update_conv')
  with assms(3,4) have "Get k now c2 =
      Inr ((if now \<le>s now0 + d then (v, True) else ('''', False)), c2)"
    by (simp add: Get_unlocked signed.not_less [symmetric])
  then show ?thesis
    by (simp add: word_sle_eq sint_add_fits)
qed

theorem Get_after_Set_witness:
  "Get ''a'' 10 \<lparr>mu = unlocked, items = [(''a'', \<lparr>val = ''1'', expiry = 50\<rparr>)],
                 defaultExpiry = 20, readOnly = 0\<rparr> =
     Inr ((''1'', True), \<lparr>mu = unlocked, items = [(''a'', \<lparr>val = ''1'', expiry = 50\<rparr>)],
                          defaultExpiry = 20, readOnly = 0\<rparr>) \<and>
   ((10 :: int64) \<le>s 0 + 50) = (sint (10 :: int64) \<le> sint (0 :: int64) + sint (50 :: int64))"
proof -
  let ?c1 = "\<lparr>mu = unlocked, items = [(''a'', \<lparr>val = ''1'', expiry = 50\<rparr>)],
             defaultExpiry = 20, readOnly = 0\<rparr>"
  have s: "Set ''a'' ''1'' 100 50 (fixed_clock 0) 0 (NewCache 20) = Inr ?c1"
    by (simp add: Set_def NewCache_def on_mu_def Lock_def Unlock_def unlocked_def)
  have r: "readOnly (NewCache 20) \<noteq> 1"
    by (simp add: NewCache_def)
  have m: "mu ?c1 = unlocked" by simp
  have e: "map_of (items ?c1) ''a'' = map_of (items ?c1) ''a''" by simp
  show ?thesis
    using Get_after_Set [OF s r m e, of 10] by simp
qed

subsection \<open>Sweep\<close>

text \<open>
  C3, as stated, fails in three ways, one for each conjunct below and the last in three
  steps.
  \<^item> At the expiry instant: with the clock at 50 during the whole sweep, an entry with
    \<open>expiry = 50\<close> (so \<open>expiresAt \<le> now\<close>) is collected by no iteration of the scan and
    \<^verbatim>\<open>cleanup\<close> leaves the cache as it was.
  \<^item> The clock is read at every entry, not once when the scan starts: the scan visits
    \<open>a\<close> at 50 and \<open>b\<close> at 60, and \<open>b\<close>, whose \<open>expiry = 55\<close> is after the start
    of the scan, is removed.
  \<^item> The delete phase does not look at what a collected key holds: the scan at 60 collects
    \<open>a\<close>; before the delete phase \<^verbatim>\<open>Set\<close> stores a new value under \<open>a\<close>, live until
    1060; the delete phase deletes it.
\<close>

theorem cleanup_counterexample:
  "cleanup (fixed_clock 50)
     \<lparr>mu = unlocked, items = [(''a'', \<lparr>val = ''1'', expiry = 50\<rparr>)],
      defaultExpiry = 20, readOnly = 0\<rparr> =
   Inr \<lparr>mu = unlocked, items = [(''a'', \<lparr>val = ''1'', expiry = 50\<rparr>)],
        defaultExpiry = 20, readOnly = 0\<rparr> \<and>
   cleanup (stepped_clock ''a'' 50 60)
     \<lparr>mu = unlocked,
      items = [(''a'', \<lparr>val = ''1'', expiry = 70\<rparr>), (''b'', \<lparr>val = ''2'', expiry = 55\<rparr>)],
      defaultExpiry = 20, readOnly = 0\<rparr> =
   Inr \<lparr>mu = unlocked, items = [(''a'', \<lparr>val = ''1'', expiry = 70\<rparr>)],
        defaultExpiry = 20, readOnly = 0\<rparr> \<and>
   cleanup_scan (fixed_clock 60)
     \<lparr>mu = unlocked, items = [(''a'', \<lparr>val = ''1'', expiry = 50\<rparr>)],
      defaultExpiry = 20, readOnly = 0\<rparr> =
   Inr ([''a''],
     \<lparr>mu = unlocked, items = [(''a'', \<lparr>val = ''1'', expiry = 50\<rparr>)],
      defaultExpiry = 20, readOnly = 0\<rparr>) \<and>
   Set ''a'' ''2'' 100 1000 (fixed_clock 60) 60
     \<lparr>mu = unlocked, items = [(''a'', \<lparr>val = ''1'', expiry = 50\<rparr>)],
      defaultExpiry = 20, readOnly = 0\<rparr> =
   Inr \<lparr>mu = unlocked, items = [(''a'', \<lparr>val = ''2'', expiry = 1060\<rparr>)],
        defaultExpiry = 20, readOnly = 0\<rparr> \<and>
   cleanup_delete [''a'']
     \<lparr>mu = unlocked, items = [(''a'', \<lparr>val = ''2'', expiry = 1060\<rparr>)],
      defaultExpiry = 20, readOnly = 0\<rparr> =
   Inr \<lparr>mu = unlocked, items = [], defaultExpiry = 20, readOnly = 0\<rparr>"
  by (simp add: cleanup_unlocked cleanup_scan_unlocked cleanup_delete_unlocked Set_below_capacity
      fixed_clock_def stepped_clock_def)

text \<open>
  C3, amended. On a cache whose mutex is free, \<^verbatim>\<open>cleanup\<close> returns, its scan phase
  collects exactly the keys whose entry has \<open>expiresAt\<close> strictly before the clock
  reading taken when the scan visits it, and it removes exactly those entries: every
  entry whose \<open>expiresAt\<close> is at or after that reading stays as it is, and nothing
  else of the cache changes. So it removes every entry whose \<open>expiresAt\<close> is strictly
  before the time \<open>t0\<close> at which the scan starts (no reading of the scan being earlier
  than \<open>t0\<close>), and removes no entry whose \<open>expiresAt\<close> is at or after the last reading
  \<open>t1\<close> of the scan. The delete phase, run on any later state \<open>c2\<close> of the cache,
  deletes exactly the collected keys, whatever they hold by then, and touches no other
  key: an entry inserted after the scan is deleted when its key was collected, and is
  never targeted otherwise.
\<close>

theorem cleanup_removes_expired:
  assumes "mu c = unlocked" and "distinct (map fst (items c))"
  shows "cleanup_scan clk c = Inr (scan clk (items c), c) \<and>
      cleanup clk c = cleanup_delete (scan clk (items c)) c \<and>
      (\<forall>k. k \<in> set (scan clk (items c)) \<longleftrightarrow>
         (\<exists>it. map_of (items c) k = Some it \<and> expiry it <s clk k)) \<and>
      (\<exists>c'. cleanup clk c = Inr c' \<and> c' = c\<lparr>items := items c'\<rparr> \<and>
         (\<forall>k. map_of (items c') k =
            (case map_of (items c) k of None \<Rightarrow> None
             | Some it \<Rightarrow> if expiry it <s clk k then None else Some it)) \<and>
         (\<forall>t0. (\<forall>k \<in> fst ` set (items c). t0 \<le>s clk k) \<longrightarrow>
            (\<forall>k it. map_of (items c) k = Some it \<and> expiry it <s t0 \<longrightarrow>
               map_of (items c') k = None)) \<and>
         (\<forall>t1. (\<forall>k \<in> fst ` set (items c). clk k \<le>s t1) \<longrightarrow>
            (\<forall>k it. map_of (items c) k = Some it \<and> t1 \<le>s expiry it \<longrightarrow>
               map_of (items c') k = Some it))) \<and>
      (\<forall>c2. mu c2 = unlocked \<longrightarrow>
         (\<exists>c3. cleanup_delete (scan clk (items c)) c2 = Inr c3 \<and> c3 = c2\<lparr>items := items c3\<rparr> \<and>
            (\<forall>k. map_of (items c3) k =
               (if k \<in> set (scan clk (items c)) then None else map_of (items c2) k))))"
proof -
  let ?keys = "scan clk (items c)"
  let ?c' = "c\<lparr>items := delete_keys ?keys (items c)\<rparr>"
  have 1: "cleanup_scan clk c = Inr (?keys, c)"
    using assms(1) by (rule cleanup_scan_unlocked)
  have 2: "cleanup clk c = cleanup_delete ?keys c"
    using assms(1) by (simp add: cleanup_unlocked cleanup_delete_unlocked)
  have 3: "cleanup clk c = Inr ?c'"
    using assms(1) by (rule cleanup_unlocked)
  have 5: "\<forall>k. k \<in> set ?keys \<longleftrightarrow> (\<exists>it. map_of (items c) k = Some it \<and> expiry it <s clk k)"
    using assms(2) by (simp add: set_scan)
  have 6: "\<forall>k. map_of (items ?c') k =
         (case map_of (items c) k of None \<Rightarrow> None
          | Some it \<Rightarrow> if expiry it <s clk k then None else Some it)"
  proof
    fix k
    show "map_of (items ?c') k =
         (case map_of (items c) k of None \<Rightarrow> None
          | Some it \<Rightarrow> if expiry it <s clk k then None else Some it)"
      using 5 [rule_format, of k]
      by (cases "map_of (items c) k") (simp_all add: map_of_delete_keys)
  qed
  have 8: "\<forall>t0. (\<forall>k \<in> fst ` set (items c). t0 \<le>s clk k) \<longrightarrow>
            (\<forall>k it. map_of (items c) k = Some it \<and> expiry it <s t0 \<longrightarrow>
               map_of (items ?c') k = None)"
  proof (intro allI impI)
    fix t0 k it
    assume a: "\<forall>k \<in> fst ` set (items c). t0 \<le>s clk k"
      and b: "map_of (items c) k = Some it \<and> expiry it <s t0"
    from b have "k \<in> fst ` set (items c)"
      by (auto dest: map_of_SomeD intro: rev_image_eqI)
    with a have "t0 \<le>s clk k" by blast
    with b have "expiry it <s clk k" by (auto intro: signed.less_le_trans)
    with b 6 [rule_format, of k] show "map_of (items ?c') k = None" by simp
  qed
  have 9: "\<forall>t1. (\<forall>k \<in> fst ` set (items c). clk k \<le>s t1) \<longrightarrow>
            (\<forall>k it. map_of (items c) k = Some it \<and> t1 \<le>s expiry it \<longrightarrow>
               map_of (items ?c') k = Some it)"
  proof (intro allI impI)
    fix t1 k it
    assume a: "\<forall>k \<in> fst ` set (items c). clk k \<le>s t1"
      and b: "map_of (items c) k = Some it \<and> t1 \<le>s expiry it"
    from b have "k \<in> fst ` set (items c)"
      by (auto dest: map_of_SomeD intro: rev_image_eqI)
    with a have "clk k \<le>s t1" by blast
    with b have "clk k \<le>s expiry it" by (auto intro: signed.order_trans)
    then have "\<not> expiry it <s clk k" by (simp add: signed.not_less)
    with b 6 [rule_format, of k] show "map_of (items ?c') k = Some it" by simp
  qed
  have 4: "\<exists>c'. cleanup clk c = Inr c' \<and> c' = c\<lparr>items := items c'\<rparr> \<and>
         (\<forall>k. map_of (items c') k =
            (case map_of (items c) k of None \<Rightarrow> None
             | Some it \<Rightarrow> if expiry it <s clk k then None else Some it)) \<and>
         (\<forall>t0. (\<forall>k \<in> fst ` set (items c). t0 \<le>s clk k) \<longrightarrow>
            (\<forall>k it. map_of (items c) k = Some it \<and> expiry it <s t0 \<longrightarrow>
               map_of (items c') k = None)) \<and>
         (\<forall>t1. (\<forall>k \<in> fst ` set (items c). clk k \<le>s t1) \<longrightarrow>
            (\<forall>k it. map_of (items c) k = Some it \<and> t1 \<le>s expiry it \<longrightarrow>
               map_of (items c') k = Some it))"
  proof (intro exI conjI)
    show "cleanup clk c = Inr ?c'" by (rule 3)
    show "?c' = c\<lparr>items := items ?c'\<rparr>" by simp
    show "\<forall>k. map_of (items ?c') k =
         (case map_of (items c) k of None \<Rightarrow> None
          | Some it \<Rightarrow> if expiry it <s clk k then None else Some it)" by (rule 6)
    show "\<forall>t0. (\<forall>k \<in> fst ` set (items c). t0 \<le>s clk k) \<longrightarrow>
            (\<forall>k it. map_of (items c) k = Some it \<and> expiry it <s t0 \<longrightarrow>
               map_of (items ?c') k = None)" by (rule 8)
    show "\<forall>t1. (\<forall>k \<in> fst ` set (items c). clk k \<le>s t1) \<longrightarrow>
            (\<forall>k it. map_of (items c) k = Some it \<and> t1 \<le>s expiry it \<longrightarrow>
               map_of (items ?c') k = Some it)" by (rule 9)
  qed
  have 7: "\<forall>c2. mu c2 = unlocked \<longrightarrow>
         (\<exists>c3. cleanup_delete ?keys c2 = Inr c3 \<and> c3 = c2\<lparr>items := items c3\<rparr> \<and>
            (\<forall>k. map_of (items c3) k = (if k \<in> set ?keys then None else map_of (items c2) k)))"
    by (simp add: cleanup_delete_unlocked map_of_delete_keys)
  from 1 2 5 4 7 show ?thesis by (intro conjI)
qed

theorem cleanup_removes_expired_witness:
  "\<exists>c' c3.
     cleanup (stepped_clock ''a'' 50 60)
       \<lparr>mu = unlocked,
        items = [(''a'', \<lparr>val = ''1'', expiry = 70\<rparr>), (''b'', \<lparr>val = ''2'', expiry = 40\<rparr>)],
        defaultExpiry = 20, readOnly = 0\<rparr> = Inr c' \<and>
     map_of (items c') ''a'' = Some \<lparr>val = ''1'', expiry = 70\<rparr> \<and>
     map_of (items c') ''b'' = None \<and>
     cleanup_delete
       (scan (stepped_clock ''a'' 50 60)
          [(''a'', \<lparr>val = ''1'', expiry = 70\<rparr>), (''b'', \<lparr>val = ''2'', expiry = 40\<rparr>)])
       \<lparr>mu = unlocked,
        items = [(''a'', \<lparr>val = ''1'', expiry = 70\<rparr>), (''b'', \<lparr>val = ''3'', expiry = 900\<rparr>),
                 (''z'', \<lparr>val = ''9'', expiry = 7\<rparr>)],
        defaultExpiry = 20, readOnly = 0\<rparr> = Inr c3 \<and>
     map_of (items c3) ''b'' = None \<and>
     map_of (items c3) ''z'' = Some \<lparr>val = ''9'', expiry = 7\<rparr>"
proof -
  let ?clk = "stepped_clock ''a'' 50 60"
  let ?c = "\<lparr>mu = unlocked,
        items = [(''a'', \<lparr>val = ''1'', expiry = 70\<rparr>), (''b'', \<lparr>val = ''2'', expiry = 40\<rparr>)],
        defaultExpiry = 20, readOnly = 0 :: int32\<rparr>"
  let ?c2 = "\<lparr>mu = unlocked,
        items = [(''a'', \<lparr>val = ''1'', expiry = 70\<rparr>), (''b'', \<lparr>val = ''3'', expiry = 900\<rparr>),
                 (''z'', \<lparr>val = ''9'', expiry = 7\<rparr>)],
        defaultExpiry = 20, readOnly = 0 :: int32\<rparr>"
  have m: "mu ?c = unlocked" by simp
  have d: "distinct (map fst (items ?c))" by simp
  have m2: "mu ?c2 = unlocked" by simp
  have lo: "\<forall>k \<in> fst ` set (items ?c). 50 \<le>s ?clk k"
    by (simp add: stepped_clock_def)
  have hi: "\<forall>k \<in> fst ` set (items ?c). ?clk k \<le>s 60"
    by (simp add: stepped_clock_def)
  have pa: "map_of (items ?c) ''a'' = Some \<lparr>val = ''1'', expiry = 70\<rparr> \<and>
      60 \<le>s expiry \<lparr>val = ''1'', expiry = 70 :: int64\<rparr>"
    by simp
  have pb: "map_of (items ?c) ''b'' = Some \<lparr>val = ''2'', expiry = 40\<rparr> \<and>
      expiry \<lparr>val = ''2'', expiry = 40 :: int64\<rparr> <s 50"
    by simp
  note t = cleanup_removes_expired [OF m d, of ?clk]
  from t obtain c' where c': "cleanup ?clk ?c = Inr c'"
    and start: "\<forall>t0. (\<forall>k \<in> fst ` set (items ?c). t0 \<le>s ?clk k) \<longrightarrow>
            (\<forall>k it. map_of (items ?c) k = Some it \<and> expiry it <s t0 \<longrightarrow>
               map_of (items c') k = None)"
    and finish: "\<forall>t1. (\<forall>k \<in> fst ` set (items ?c). ?clk k \<le>s t1) \<longrightarrow>
            (\<forall>k it. map_of (items ?c) k = Some it \<and> t1 \<le>s expiry it \<longrightarrow>
               map_of (items c') k = Some it)"
    by blast
  from t have later: "\<forall>c2. mu c2 = unlocked \<longrightarrow>
         (\<exists>c3. cleanup_delete (scan ?clk (items ?c)) c2 = Inr c3 \<and>
            c3 = c2\<lparr>items := items c3\<rparr> \<and>
            (\<forall>k. map_of (items c3) k =
               (if k \<in> set (scan ?clk (items ?c)) then None else map_of (items c2) k)))"
    by blast
  from later [rule_format, OF m2]
  obtain c3 where c3: "cleanup_delete (scan ?clk (items ?c)) ?c2 = Inr c3"
    and l3: "\<forall>k. map_of (items c3) k =
               (if k \<in> set (scan ?clk (items ?c)) then None else map_of (items ?c2) k)"
    by blast
  have a: "map_of (items c') ''a'' = Some \<lparr>val = ''1'', expiry = 70\<rparr>"
    using finish hi pa by blast
  have b: "map_of (items c') ''b'' = None"
    using start lo pb by blast
  have b3: "map_of (items c3) ''b'' = None"
    using l3 [rule_format, of "''b''"] by (simp add: stepped_clock_def)
  have z3: "map_of (items c3) ''z'' = Some \<lparr>val = ''9'', expiry = 7\<rparr>"
    using l3 [rule_format, of "''z''"] by (simp add: stepped_clock_def)
  from c' a b c3 b3 z3 show ?thesis by auto
qed

subsection \<open>Capacity\<close>

text \<open>
  C4. The claim: on an unfrozen cache with \<open>count \<ge> maxEntries\<close>, \<^verbatim>\<open>Set\<close> sweeps and then
  inserts. In the code \<^verbatim>\<open>Set\<close> takes the exclusive lock and then calls \<^verbatim>\<open>cleanup\<close>,
  whose first statement is \<^verbatim>\<open>c.mu.RLock()\<close> on the same mutex: the call waits for a
  lock its own goroutine holds. With one entry in the cache and \<open>maxItems = 1\<close>,
  \<^verbatim>\<open>Set\<close> never returns and nothing is inserted.
\<close>

theorem Set_at_capacity_blocks:
  "Set ''b'' ''2'' 1 50 (fixed_clock 0) 0
     \<lparr>mu = unlocked, items = [(''a'', \<lparr>val = ''1'', expiry = 50\<rparr>)],
      defaultExpiry = 20, readOnly = 0\<rparr> = Inl BlocksForever"
  by (simp add: Set_def on_mu_def Lock_def RLock_def cleanup_def cleanup_scan_def unlocked_def)

subsection \<open>Reading\<close>

text \<open>
  C5. When \<^verbatim>\<open>GetOrDelete\<close> finds the key present and expired (the clock reading is after
  the entry's \<open>expiry\<close>), it returns the empty string and \<open>found = false\<close>, and the
  cache it leaves differs from the one it found only in that the key is deleted: the key
  is absent and every other key maps to what it did. \<^verbatim>\<open>Get\<close> on the same cache at the
  same time returns the same result and leaves the cache unchanged, the expired entry
  included.
\<close>

theorem GetOrDelete_deletes_Get_keeps:
  assumes "mu c = unlocked" and "map_of (items c) k = Some it" and "expiry it <s now"
  shows "GetOrDelete k now c = Inr (('''', False), c\<lparr>items := AList.delete k (items c)\<rparr>) \<and>
    map_of (AList.delete k (items c)) k = None \<and>
    (\<forall>k'. k' \<noteq> k \<longrightarrow> map_of (AList.delete k (items c)) k' = map_of (items c) k') \<and>
    Get k now c = Inr (('''', False), c)"
proof -
  have "GetOrDelete k now c = Inr (('''', False), c\<lparr>items := AList.delete k (items c)\<rparr>)"
    using assms
    by (simp add: GetOrDelete_def delete_def on_mu_def RLock_def RUnlock_def Lock_def Unlock_def
        unlocked_def)
  moreover have "Get k now c = Inr (('''', False), c)"
    using assms by (simp add: Get_unlocked)
  ultimately show ?thesis
    by (simp add: AList.delete_conv')
qed

theorem GetOrDelete_deletes_Get_keeps_witness:
  "GetOrDelete ''b'' 50
     \<lparr>mu = unlocked,
      items = [(''a'', \<lparr>val = ''1'', expiry = 50\<rparr>), (''b'', \<lparr>val = ''2'', expiry = 49\<rparr>)],
      defaultExpiry = 20, readOnly = 0\<rparr> =
   Inr (('''', False),
     \<lparr>mu = unlocked, items = [(''a'', \<lparr>val = ''1'', expiry = 50\<rparr>)],
      defaultExpiry = 20, readOnly = 0\<rparr>) \<and>
   Get ''b'' 50
     \<lparr>mu = unlocked,
      items = [(''a'', \<lparr>val = ''1'', expiry = 50\<rparr>), (''b'', \<lparr>val = ''2'', expiry = 49\<rparr>)],
      defaultExpiry = 20, readOnly = 0\<rparr> =
   Inr (('''', False),
     \<lparr>mu = unlocked,
      items = [(''a'', \<lparr>val = ''1'', expiry = 50\<rparr>), (''b'', \<lparr>val = ''2'', expiry = 49\<rparr>)],
      defaultExpiry = 20, readOnly = 0\<rparr>) \<and>
   map_of (AList.delete ''b''
      [(''a'', \<lparr>val = ''1'', expiry = 50\<rparr>), (''b'', \<lparr>val = ''2'', expiry = 49\<rparr>)]) ''a'' =
   map_of [(''a'', \<lparr>val = ''1'', expiry = 50\<rparr>), (''b'', \<lparr>val = ''2'', expiry = 49\<rparr>)] ''a''"
proof -
  let ?c = "\<lparr>mu = unlocked,
      items = [(''a'', \<lparr>val = ''1'', expiry = 50\<rparr>), (''b'', \<lparr>val = ''2'', expiry = 49\<rparr>)],
      defaultExpiry = 20, readOnly = 0 :: int32\<rparr>"
  have m: "mu ?c = unlocked" by simp
  have p: "map_of (items ?c) ''b'' = Some \<lparr>val = ''2'', expiry = 49\<rparr>" by simp
  have e: "expiry \<lparr>val = ''2'', expiry = 49\<rparr> <s (50 :: int64)" by simp
  have n: "''a'' \<noteq> ''b''" by simp
  show ?thesis
    using GetOrDelete_deletes_Get_keeps [OF m p e] n by simp
qed

subsection \<open>A frozen cache\<close>

text \<open>
  C6. After \<^verbatim>\<open>SaveAndExit\<close> has been called exactly once (on a cache whose \<^verbatim>\<open>readOnly\<close>
  was 0, as \<^verbatim>\<open>NewCache\<close> leaves it), every \<^verbatim>\<open>Set\<close> is a silent no-op: on any later state
  \<open>c'\<close> whose \<^verbatim>\<open>readOnly\<close> is as that call left it, whatever the key, the value,
  \<open>maxItems\<close>, the lifetime, the clock and the state of the mutex, \<^verbatim>\<open>Set\<close> returns
  normally and the cache is the one it was given.
\<close>

theorem Set_after_one_SaveAndExit:
  assumes "readOnly c = 0" and "readOnly c' = readOnly (SaveAndExit s c)"
  shows "Set k v maxItems d clk now c' = Inr c'"
  using assms by (simp add: Set_def SaveAndExit_def)

theorem Set_after_one_SaveAndExit_witness:
  "Set ''b'' ''2'' 1 50 (fixed_clock 0) 0
     \<lparr>mu = unlocked, items = [(''a'', \<lparr>val = ''1'', expiry = 50\<rparr>)],
      defaultExpiry = 20, readOnly = 1\<rparr> =
   Inr \<lparr>mu = unlocked, items = [(''a'', \<lparr>val = ''1'', expiry = 50\<rparr>)],
        defaultExpiry = 20, readOnly = 1\<rparr>"
proof -
  let ?c = "\<lparr>mu = unlocked, items = [(''a'', \<lparr>val = ''1'', expiry = 50\<rparr>)],
      defaultExpiry = 20 :: int64, readOnly = 0 :: int32\<rparr>"
  have z: "readOnly ?c = 0" by simp
  have f: "readOnly (SaveAndExit ''x'' ?c) = readOnly (SaveAndExit ''x'' ?c)" by simp
  show ?thesis
    using Set_after_one_SaveAndExit [OF z f, of "''b''" "''2''" 1 50 "fixed_clock 0" 0]
    by (simp add: SaveAndExit_def)
qed

subsection \<open>The insertion without a lifetime\<close>

text \<open>
  C7. \<^verbatim>\<open>Set(k, v)\<close> of the earlier revision, on an unfrozen cache whose mutex is free,
  stores for \<open>k\<close> the value \<open>v\<close> with \<open>expiry = now + defaultExpiry\<close> and changes nothing
  else; \<^verbatim>\<open>defaultExpiry\<close> is the duration given to \<^verbatim>\<open>NewCache\<close>. The sum is the \<^verbatim>\<open>int64\<close>
  sum, which is the sum of the integers whenever that fits in an \<^verbatim>\<open>int64\<close>.
\<close>

theorem Set_default_uses_defaultExpiry:
  assumes "mu c = unlocked" and "readOnly c \<noteq> 1"
  shows "Set_default k v now c =
      Inr (c\<lparr>items := AList.update k \<lparr>val = v, expiry = now + defaultExpiry c\<rparr> (items c)\<rparr>) \<and>
    map_of (AList.update k \<lparr>val = v, expiry = now + defaultExpiry c\<rparr> (items c)) k =
      Some \<lparr>val = v, expiry = now + defaultExpiry c\<rparr> \<and>
    defaultExpiry (NewCache ed) = ed \<and>
    (- (2 ^ 63) \<le> sint now + sint (defaultExpiry c) \<and>
     sint now + sint (defaultExpiry c) < 2 ^ 63 \<longrightarrow>
       sint (now + defaultExpiry c) = sint now + sint (defaultExpiry c))"
proof -
  have "Set_default k v now c =
      Inr (c\<lparr>items := AList.update k \<lparr>val = v, expiry = now + defaultExpiry c\<rparr> (items c)\<rparr>)"
    using assms by (simp add: Set_default_def on_mu_Lock) (simp add: on_mu_def Unlock_def unlocked_def)
  then show ?thesis
    by (simp add: AList.update_conv' NewCache_def sint_add_fits)
qed

theorem Set_default_uses_defaultExpiry_witness:
  "Set_default ''a'' ''1'' 5 (NewCache 20) =
     Inr \<lparr>mu = unlocked, items = [(''a'', \<lparr>val = ''1'', expiry = 25\<rparr>)],
          defaultExpiry = 20, readOnly = 0\<rparr> \<and>
   sint (25 :: int64) = 25"
proof -
  have m: "mu (NewCache 20) = unlocked" by (simp add: NewCache_def)
  have r: "readOnly (NewCache 20) \<noteq> 1" by (simp add: NewCache_def)
  show ?thesis
    using Set_default_uses_defaultExpiry [OF m r, of "''a''" "''1''" 5 20]
    by (simp add: NewCache_def)
qed

subsection \<open>The janitor\<close>

text \<open>The next iteration of a janitor that is still running.\<close>

lemma janitor_next:
  "snd (janitor n clks c) = Inr c1 \<Longrightarrow>
   janitor (Suc n) clks c =
     (fst (janitor n clks c) @ [After (defaultExpiry c1 * 2), Cleanup], cleanup (clks n) c1)"
proof (induction n arbitrary: clks c)
  case 0
  then show ?case by (simp split: sum.split)
next
  case (Suc n)
  from Suc.prems obtain c' where c': "cleanup (clks 0) c = Inr c'"
    by (cases "cleanup (clks 0) c") auto
  with Suc.prems have "snd (janitor n (\<lambda>i. clks (Suc i)) c') = Inr c1"
    by (simp split: prod.splits)
  from Suc.IH [OF this] c' show ?case
    by (simp split: prod.splits)
qed

text \<open>On a cache whose mutex is free no iteration is stopped by a fault.\<close>

lemma janitor_running:
  "mu c = unlocked \<Longrightarrow>
   \<exists>c1. janitor n clks c =
          (concat (replicate n [After (defaultExpiry c * 2), Cleanup]), Inr c1) \<and>
        mu c1 = unlocked \<and> defaultExpiry c1 = defaultExpiry c"
proof (induction n arbitrary: clks c)
  case 0
  then show ?case by simp
next
  case (Suc n)
  let ?c' = "c\<lparr>items := delete_keys (scan (clks 0) (items c)) (items c)\<rparr>"
  have c': "cleanup (clks 0) c = Inr ?c'"
    using Suc.prems by (rule cleanup_unlocked)
  have "mu ?c' = unlocked" using Suc.prems by simp
  from Suc.IH [OF this, of "\<lambda>i. clks (Suc i)"] c' show ?case
    by auto
qed

text \<open>
  On a cache whose mutex is free: the janitor is still running after any number \<open>n\<close> of
  iterations, all it has done is \<open>n\<close> times to wait for \<^verbatim>\<open>c.defaultExpiry * 2\<close> and
  then \<^verbatim>\<open>cleanup\<close>, and its next iteration does the same.
\<close>

lemma janitor_on_free_mutex:
  assumes "mu c = unlocked"
  shows "\<exists>c1 c2.
      janitor n clks c = (concat (replicate n [After (defaultExpiry c * 2), Cleanup]), Inr c1) \<and>
      cleanup (clks n) c1 = Inr c2 \<and>
      janitor (Suc n) clks c =
        (concat (replicate n [After (defaultExpiry c * 2), Cleanup]) @
           [After (defaultExpiry c * 2), Cleanup], Inr c2) \<and>
      (- (2 ^ 62) \<le> sint (defaultExpiry c) \<and> sint (defaultExpiry c) < 2 ^ 62 \<longrightarrow>
         sint (defaultExpiry c * 2) = 2 * sint (defaultExpiry c))"
proof -
  from janitor_running [OF assms, of n clks] obtain c1
    where j: "janitor n clks c =
          (concat (replicate n [After (defaultExpiry c * 2), Cleanup]), Inr c1)"
      and m: "mu c1 = unlocked" and d: "defaultExpiry c1 = defaultExpiry c"
    by blast
  from m have s: "cleanup (clks n) c1 =
      Inr (c1\<lparr>items := delete_keys (scan (clks n) (items c1)) (items c1)\<rparr>)"
    by (rule cleanup_unlocked)
  from j have "snd (janitor n clks c) = Inr c1" by simp
  from janitor_next [OF this] j s d have "janitor (Suc n) clks c =
        (concat (replicate n [After (defaultExpiry c * 2), Cleanup]) @
           [After (defaultExpiry c * 2), Cleanup],
         Inr (c1\<lparr>items := delete_keys (scan (clks n) (items c1)) (items c1)\<rparr>))"
    by simp
  with j s show ?thesis
    by (simp add: sint_double_fits)
qed

text \<open>While the exclusive lock is held, the first sweep of the janitor is its last.\<close>

lemma janitor_write_locked:
  "writer (mu c) \<Longrightarrow>
   janitor (Suc n) clks c = ([After (defaultExpiry c * 2), Cleanup], Inl BlocksForever)"
  by (simp add: cleanup_write_locked)

text \<open>
  C8. The claim: on every iteration, forever, the janitor waits for twice the default
  lifetime and then sweeps. In the code a \<^verbatim>\<open>Set\<close> at capacity never returns and never
  releases the exclusive lock it took (see C4). On the cache it leaves, the janitor
  waits, calls \<^verbatim>\<open>cleanup\<close>, and \<^verbatim>\<open>cleanup\<close> waits forever in \<^verbatim>\<open>c.mu.RLock()\<close>: however
  many iterations it is given, the janitor starts one sweep and never a second wait.
\<close>

theorem janitor_blocks_behind_Set:
  "Set ''b'' ''2'' 1 50 (fixed_clock 0) 0
     \<lparr>mu = unlocked, items = [(''a'', \<lparr>val = ''1'', expiry = 50\<rparr>)],
      defaultExpiry = 20, readOnly = 0\<rparr> = Inl BlocksForever \<and>
   on_mu Lock
     \<lparr>mu = unlocked, items = [(''a'', \<lparr>val = ''1'', expiry = 50\<rparr>)],
      defaultExpiry = 20, readOnly = 0\<rparr> =
   Inr \<lparr>mu = \<lparr>writer = True, readers = 0\<rparr>, items = [(''a'', \<lparr>val = ''1'', expiry = 50\<rparr>)],
        defaultExpiry = 20, readOnly = 0\<rparr> \<and>
   janitor 3 (fixed_clocks 60)
     \<lparr>mu = \<lparr>writer = True, readers = 0\<rparr>, items = [(''a'', \<lparr>val = ''1'', expiry = 50\<rparr>)],
      defaultExpiry = 20, readOnly = 0\<rparr> =
   ([After 40, Cleanup], Inl BlocksForever)"
  by (simp add: Set_at_capacity on_mu_Lock numeral_3_eq_3 cleanup_write_locked)

subsection \<open>The value of a miss\<close>

text \<open>
  C9. Whenever \<^verbatim>\<open>Get\<close> or \<^verbatim>\<open>GetOrDelete\<close> returns \<open>found = false\<close>, because the key is
  absent or because its entry is expired, the value it returns is the empty string.
\<close>

theorem not_found_value_empty:
  assumes "Get k now c = Inr ((v, found), c') \<or> GetOrDelete k now c = Inr ((v, found), c')"
    and "\<not> found"
  shows "v = ''''"
  using assms
  by (auto simp: Get_def GetOrDelete_def split: sum.splits option.splits if_splits)

theorem not_found_value_empty_witness:
  "Get ''b'' 50
     \<lparr>mu = unlocked, items = [(''b'', \<lparr>val = ''2'', expiry = 49\<rparr>)],
      defaultExpiry = 20, readOnly = 0\<rparr> =
   Inr (('''', False),
     \<lparr>mu = unlocked, items = [(''b'', \<lparr>val = ''2'', expiry = 49\<rparr>)],
      defaultExpiry = 20, readOnly = 0\<rparr>) \<and> \<not> False \<and> '''' = ''''"
proof -
  let ?c = "\<lparr>mu = unlocked, items = [(''b'', \<lparr>val = ''2'', expiry = 49\<rparr>)],
      defaultExpiry = 20 :: int64, readOnly = 0 :: int32\<rparr>"
  have g: "Get ''b'' 50 ?c = Inr (('''', False), ?c)"
    by (simp add: Get_unlocked)
  then have h: "Get ''b'' 50 ?c = Inr (('''', False), ?c) \<or>
      GetOrDelete ''b'' 50 ?c = Inr (('''', False), ?c)"
    by simp
  have n: "\<not> False" by simp
  show ?thesis
    using g not_found_value_empty [OF h n] by simp
qed

end
